theory Spec2Isabelle
  imports Main "HOL-Library.Sublist"
begin

section \<open>The pipeline orchestrator of \<^verbatim>\<open>main.py\<close>\<close>

text \<open>
  The program is one function, \<^verbatim>\<open>go(config)\<close>: it exports the run-group identity into the
  process environment, computes \<^verbatim>\<open>active_steps\<close> from \<^verbatim>\<open>config['main']['steps']\<close>, opens a
  temporary directory and walks a fixed chain of \<^verbatim>\<open>if "<name>" in active_steps:\<close> blocks,
  each of which calls an external collaborator (wandb, a subprocess, mlflow).

  The model threads an explicit process state (environment variables, current directory,
  file system) through the chain. The collaborators are opaque: what they are called with
  is recorded in a ghost trace (\<open>calls\<close>), and whether a call succeeds is read from a
  \<open>world\<close> that the theorems quantify over. An exception of the source is an
  \<open>error option\<close> next to the state reached when it was raised.

  The configuration is taken as hydra delivers it for the keys the program reads: every key
  is present, and the keys the program passes on unconverted are strings.
\<close>

subsection \<open>Configuration values and their renderings\<close>

text \<open>
  A scalar of the configuration. A float carries the text Python prints for it; floating
  point arithmetic plays no part in the orchestrator.
\<close>

datatype cfgval = VInt int | VFloat string | VStr string | VBool bool | VNone

definition digit_char :: "nat \<Rightarrow> char" where
  "digit_char n = ''0123456789abcdef'' ! n"

fun nat_digits :: "nat \<Rightarrow> string" where
  "nat_digits n = (if n < 10 then [digit_char n] else nat_digits (n div 10) @ [digit_char (n mod 10)])"

declare nat_digits.simps [simp del]

definition str_int :: "int \<Rightarrow> string" where
  "str_int i = (if i < 0 then ''-'' @ nat_digits (nat (- i)) else nat_digits (nat i))"

text \<open>Python's \<^verbatim>\<open>str(v)\<close> on a configuration scalar.\<close>

fun py_str :: "cfgval \<Rightarrow> string" where
  "py_str (VInt i) = str_int i"
| "py_str (VFloat r) = r"
| "py_str (VStr s) = s"
| "py_str (VBool b) = (if b then ''True'' else ''False'')"
| "py_str VNone = ''None''"

text \<open>
  \<^verbatim>\<open>json.dump\<close> of a flat dictionary with its default settings: items separated by
  \<^verbatim>\<open>", "\<close>, key and value by \<^verbatim>\<open>": "\<close>, strings quoted with everything outside the printable
  ASCII range escaped, and the floats that are not finite written as \<^verbatim>\<open>Infinity\<close>,
  \<^verbatim>\<open>-Infinity\<close> and \<^verbatim>\<open>NaN\<close>.
\<close>

definition json_escape :: "char \<Rightarrow> string" where
  "json_escape c =
     (if c = CHR 0x22 then [CHR 0x5C, CHR 0x22]
      else if c = CHR 0x5C then [CHR 0x5C, CHR 0x5C]
      else if c = CHR 0x0A then [CHR 0x5C, CHR ''n'']
      else if c = CHR 0x0D then [CHR 0x5C, CHR ''r'']
      else if c = CHR 0x09 then [CHR 0x5C, CHR ''t'']
      else if c = CHR 0x08 then [CHR 0x5C, CHR ''b'']
      else if c = CHR 0x0C then [CHR 0x5C, CHR ''f'']
      else if (of_char c :: nat) < 32 \<or> 126 < (of_char c :: nat)
        then [CHR 0x5C, CHR ''u'', CHR ''0'', CHR ''0'',
              digit_char (of_char c div 16), digit_char (of_char c mod 16)]
      else [c])"

definition json_string :: "string \<Rightarrow> string" where
  "json_string s = [CHR 0x22] @ concat (map json_escape s) @ [CHR 0x22]"

fun json_value :: "cfgval \<Rightarrow> string" where
  "json_value (VInt i) = str_int i"
| "json_value (VFloat r) =
     (if r = ''inf'' then ''Infinity''
      else if r = ''-inf'' then ''-Infinity''
      else if r = ''nan'' then ''NaN''
      else r)"
| "json_value (VStr s) = json_string s"
| "json_value (VBool b) = (if b then ''true'' else ''false'')"
| "json_value VNone = ''null''"

fun join_str :: "string \<Rightarrow> string list \<Rightarrow> string" where
  "join_str sep [] = []"
| "join_str sep [x] = x"
| "join_str sep (x # y # ys) = x @ sep @ join_str sep (y # ys)"

definition json_dump :: "(string \<times> cfgval) list \<Rightarrow> string" where
  "json_dump kvs =
     ''{'' @ join_str '', '' (map (\<lambda>(k, v). json_string k @ '': '' @ json_value v) kvs) @ ''}''"

subsection \<open>Strings and paths\<close>

text \<open>
  \<^verbatim>\<open>s.split(sep)\<close> for a one-character separator: a string with \<open>k\<close> separators has
  \<open>k + 1\<close> tokens, the empty string has the one token \<^verbatim>\<open>""\<close>, and nothing is trimmed.
  The scan keeps the token read so far in \<open>tok\<close>.
\<close>

fun split_from :: "string \<Rightarrow> string \<Rightarrow> char \<Rightarrow> string list" where
  "split_from tok [] sep = [tok]"
| "split_from tok (c # cs) sep =
     (if c = sep then tok # split_from [] cs sep else split_from (tok @ [c]) cs sep)"

definition str_split :: "string \<Rightarrow> char \<Rightarrow> string list" where
  "str_split s sep = split_from [] s sep"

text \<open>\<^verbatim>\<open>os.path.join(a, b)\<close> on POSIX; with more arguments it folds from the left.\<close>

definition path_join :: "string \<Rightarrow> string \<Rightarrow> string" where
  "path_join a b =
     (if b \<noteq> [] \<and> hd b = CHR ''/'' then b
      else if a = [] \<or> last a = CHR ''/'' then a @ b
      else a @ ''/'' @ b)"

text \<open>
  \<^verbatim>\<open>os.path.abspath(p)\<close> in a process whose current directory is \<open>wd\<close>. The current
  directory is an absolute, normalised path and the program passes a plain file name, so
  the normalisation that \<^verbatim>\<open>abspath\<close> ends with changes nothing.
\<close>

definition abspath :: "string \<Rightarrow> string \<Rightarrow> string" where
  "abspath wd p = (if p \<noteq> [] \<and> hd p = CHR ''/'' then p else path_join wd p)"

text \<open>\<open>under d p\<close>: the path \<open>p\<close> is the directory \<open>d\<close> or lies inside it.\<close>

definition under :: "string \<Rightarrow> string \<Rightarrow> bool" where
  "under d p = (p = d \<or> prefix (d @ ''/'') p)"

subsection \<open>Configuration, process state, collaborators\<close>

text \<open>
  The keys of the nested configuration that \<^verbatim>\<open>go\<close> reads, \<^verbatim>\<open>config["etl"]["sample"]\<close>
  as \<open>etl_sample\<close> and so on.
\<close>

record config =
  main_project_name :: string
  main_experiment_name :: string
  main_steps :: string
  main_components_repository :: string
  etl_sample :: string
  etl_output_artifact :: string
  etl_output_type :: string
  etl_output_description :: string
  etl_min_price :: cfgval
  etl_max_price :: cfgval
  data_check_kl_threshold :: cfgval
  modeling_test_size :: cfgval
  modeling_random_seed :: cfgval
  modeling_stratify_by :: string
  modeling_val_size :: cfgval
  modeling_max_tfidf_features :: cfgval
  modeling_output_artifact :: string
  modeling_random_forest :: "(string \<times> cfgval) list"

text \<open>
  What a stage hands to its collaborator:
  \<^item> \<open>LogArtifact name type description file\<close>: \<^verbatim>\<open>wandb.Artifact(name, type, description)\<close>,
    \<^verbatim>\<open>add_file(file)\<close>, \<^verbatim>\<open>log_artifact\<close>, \<^verbatim>\<open>wait\<close>;
  \<^item> \<open>SubprocessRun args dir\<close>: \<^verbatim>\<open>subprocess.run(args, check=True, cwd=dir)\<close>;
  \<^item> \<open>MlflowRun uri entry_point parameters\<close>: \<^verbatim>\<open>mlflow.run(uri, entry_point, parameters=...)\<close>.
\<close>

datatype action =
    LogArtifact string string string string
  | SubprocessRun "string list" string
  | MlflowRun string string "(string \<times> cfgval) list"

text \<open>
  One entry of the trace: the stage, the run-group identity found in the environment when
  the collaborator was called, and the call.
\<close>

record call =
  stage :: string
  run_group :: "string option \<times> string option"
  act :: action

datatype node = Dir | File string

record state =
  environ :: "string \<rightharpoonup> string"
  cwd :: string
  fs :: "string \<rightharpoonup> node"
  calls :: "call list"

text \<open>
  What the program does not decide: the directory hydra was started in, the name of the
  fresh temporary directory, for each stage the exit status of its process (for wandb and
  mlflow: 0 when the call returns, anything else when it raises), and whether a file can
  be opened for writing.
\<close>

record world =
  get_original_cwd :: string
  mkdtemp :: string
  exit_status :: "string \<Rightarrow> int"
  can_write :: "string \<Rightarrow> bool"

datatype error =
    CalledProcessError int "string list"
  | ExecutionException string
  | WandbError
  | OSError string

type_synonym step = "state \<Rightarrow> error option \<times> state"

subsection \<open>The stages\<close>

text \<open>\<^verbatim>\<open>_steps\<close>, with its last entry commented out as in the source.\<close>

definition steps_table :: "string list" where
  "steps_table =
     [''download'', ''basic_cleaning'', ''data_check'', ''data_split'', ''train_random_forest'']"

text \<open>
  Calling a collaborator: the call is appended to the trace, and a non-zero status
  becomes the exception \<open>exn\<close> builds from it.
\<close>

definition invoke :: "world \<Rightarrow> string \<Rightarrow> action \<Rightarrow> (int \<Rightarrow> error) \<Rightarrow> step" where
  "invoke w name a exn s =
     (let s' = s\<lparr>calls := calls s @
                 [\<lparr>stage = name,
                   run_group = (environ s ''WANDB_PROJECT'', environ s ''WANDB_RUN_GROUP''),
                   act = a\<rparr>]\<rparr>
      in (if exit_status w name = 0 then None else Some (exn (exit_status w name)), s'))"

definition download :: "config \<Rightarrow> world \<Rightarrow> string \<Rightarrow> step" where
  "download config w original_cwd =
     (let local_file_path = path_join (path_join original_cwd ''data'') (etl_sample config)
      in invoke w ''download''
           (LogArtifact (etl_sample config) ''raw_data'' ''Raw data from local file''
              local_file_path)
           (\<lambda>_. WandbError))"

definition basic_cleaning_args :: "config \<Rightarrow> string list" where
  "basic_cleaning_args config =
     [''python'', ''run.py'',
      ''--input_artifact'', ''sample.csv:latest'',
      ''--output_artifact'', etl_output_artifact config,
      ''--output_type'', etl_output_type config,
      ''--output_description'', etl_output_description config,
      ''--min_price'', py_str (etl_min_price config),
      ''--max_price'', py_str (etl_max_price config)]"

definition basic_cleaning :: "config \<Rightarrow> world \<Rightarrow> string \<Rightarrow> step" where
  "basic_cleaning config w original_cwd =
     invoke w ''basic_cleaning''
       (SubprocessRun (basic_cleaning_args config) (path_join original_cwd ''src/basic_cleaning''))
       (\<lambda>rc. CalledProcessError rc (basic_cleaning_args config))"

definition data_check_args :: "config \<Rightarrow> string list" where
  "data_check_args config =
     [''pytest'', ''.'', ''-vv'',
      ''--csv'', ''clean_sample:latest'',
      ''--ref'', ''clean_sample:reference'',
      ''--kl_threshold'', py_str (data_check_kl_threshold config),
      ''--min_price'', py_str (etl_min_price config),
      ''--max_price'', py_str (etl_max_price config)]"

definition data_check :: "config \<Rightarrow> world \<Rightarrow> string \<Rightarrow> step" where
  "data_check config w original_cwd =
     invoke w ''data_check''
       (SubprocessRun (data_check_args config) (path_join original_cwd ''src/data_check''))
       (\<lambda>rc. CalledProcessError rc (data_check_args config))"

definition data_split :: "config \<Rightarrow> world \<Rightarrow> step" where
  "data_split config w =
     invoke w ''data_split''
       (MlflowRun (main_components_repository config @ ''/train_val_test_split'') ''main''
          [(''input'', VStr ''clean_sample:latest''),
           (''test_size'', modeling_test_size config),
           (''random_seed'', modeling_random_seed config),
           (''stratify_by'', VStr (modeling_stratify_by config))])
       (\<lambda>_. ExecutionException ''train_val_test_split'')"

definition train_random_forest_args :: "config \<Rightarrow> string \<Rightarrow> string list" where
  "train_random_forest_args config rf_config =
     [''python'', ''run.py'',
      ''--trainval_artifact'', ''trainval_data:latest'',
      ''--val_size'', py_str (modeling_val_size config),
      ''--random_seed'', py_str (modeling_random_seed config),
      ''--stratify_by'', modeling_stratify_by config,
      ''--rf_config'', rf_config,
      ''--max_tfidf_features'', py_str (modeling_max_tfidf_features config),
      ''--output_artifact'', modeling_output_artifact config]"

text \<open>
  The training stage first serialises \<^verbatim>\<open>modeling.random_forest\<close> into
  \<^verbatim>\<open>os.path.abspath("rf_config.json")\<close>, a path relative to the current directory of the
  process, and then runs its process.
\<close>

definition train_random_forest :: "config \<Rightarrow> world \<Rightarrow> string \<Rightarrow> step" where
  "train_random_forest config w original_cwd s =
     (let rf_config = abspath (cwd s) ''rf_config.json''
      in if \<not> can_write w rf_config then (Some (OSError rf_config), s)
         else
           let s1 = s\<lparr>fs := (fs s)(rf_config \<mapsto> File (json_dump (modeling_random_forest config)))\<rparr>
           in invoke w ''train_random_forest''
                (SubprocessRun (train_random_forest_args config rf_config)
                   (path_join original_cwd ''src/train_random_forest''))
                (\<lambda>rc. CalledProcessError rc (train_random_forest_args config rf_config))
                s1)"

definition test_regression_model :: "config \<Rightarrow> world \<Rightarrow> step" where
  "test_regression_model config w =
     invoke w ''test_regression_model''
       (MlflowRun (main_components_repository config @ ''/test_regression_model'') ''main''
          [(''mlflow_model'', VStr ''random_forest_export:prod''),
           (''test_dataset'', VStr ''test_data:latest'')])
       (\<lambda>_. ExecutionException ''test_regression_model'')"

subsection \<open>The orchestrator\<close>

text \<open>
  The body of the \<^verbatim>\<open>with\<close> block is a sequence of guarded blocks,
  \<^verbatim>\<open>if "<name>" in active_steps: <stage>\<close>, in this order. An exception leaves the
  sequence at once.
\<close>

definition pipeline :: "config \<Rightarrow> world \<Rightarrow> string \<Rightarrow> (string \<times> step) list" where
  "pipeline config w original_cwd =
     [(''download'', download config w original_cwd),
      (''basic_cleaning'', basic_cleaning config w original_cwd),
      (''data_check'', data_check config w original_cwd),
      (''data_split'', data_split config w),
      (''train_random_forest'', train_random_forest config w original_cwd),
      (''test_regression_model'', test_regression_model config w)]"

fun run_chain :: "string list \<Rightarrow> (string \<times> step) list \<Rightarrow> step" where
  "run_chain active_steps [] s = (None, s)"
| "run_chain active_steps ((name, body) # rest) s =
     (if name \<in> set active_steps
      then (case body s of
              (None, s') \<Rightarrow> run_chain active_steps rest s'
            | (Some e, s') \<Rightarrow> (Some e, s'))
      else run_chain active_steps rest s)"

text \<open>Line 35: \<^verbatim>\<open>steps_par.split(",") if steps_par != "all" else _steps\<close>.\<close>

definition active_steps :: "config \<Rightarrow> string list" where
  "active_steps config =
     (let steps_par = main_steps config
      in if steps_par \<noteq> ''all'' then str_split steps_par CHR '','' else steps_table)"

text \<open>
  \<^verbatim>\<open>shutil.rmtree\<close>, which the temporary directory runs when its \<^verbatim>\<open>with\<close> block is left,
  normally or by an exception.
\<close>

definition rmtree :: "string \<Rightarrow> (string \<rightharpoonup> node) \<Rightarrow> (string \<rightharpoonup> node)" where
  "rmtree d f = (\<lambda>p. if under d p then None else f p)"

definition go :: "config \<Rightarrow> world \<Rightarrow> step" where
  "go config w s0 =
     (let s1 = s0\<lparr>environ := (environ s0)(''WANDB_PROJECT'' \<mapsto> main_project_name config)\<rparr>;
          s2 = s1\<lparr>environ := (environ s1)(''WANDB_RUN_GROUP'' \<mapsto> main_experiment_name config)\<rparr>;
          original_cwd = get_original_cwd w;
          tmp_dir = mkdtemp w;
          s3 = s2\<lparr>fs := (fs s2)(tmp_dir \<mapsto> Dir)\<rparr>;
          (r, s4) = run_chain (active_steps config) (pipeline config w original_cwd) s3
      in (r, s4\<lparr>fs := rmtree tmp_dir (fs s4)\<rparr>))"

subsection \<open>Observations of a run\<close>

text \<open>The calls made between two states, and the names of the stages they belong to.\<close>

definition new_calls :: "state \<Rightarrow> state \<Rightarrow> call list" where
  "new_calls s s' = drop (length (calls s)) (calls s')"

definition stages_run :: "config \<Rightarrow> world \<Rightarrow> state \<Rightarrow> string list" where
  "stages_run config w s = map stage (new_calls s (snd (go config w s)))"

text \<open>The order of the guarded blocks in \<^verbatim>\<open>go\<close>: the table, then the stage left out of it.\<close>

definition stage_order :: "string list" where
  "stage_order = steps_table @ [''test_regression_model'']"

text \<open>The stages that come after \<open>n\<close> in that order.\<close>

definition later_stages :: "string \<Rightarrow> string list" where
  "later_stages n = tl (dropWhile (\<lambda>m. m \<noteq> n) stage_order)"

text \<open>
  A chain of stage names run in order until the first one whose status is not 0, which is
  the last to run.
\<close>

fun run_upto :: "(string \<Rightarrow> int) \<Rightarrow> string list \<Rightarrow> string list" where
  "run_upto st [] = []"
| "run_upto st (n # ns) = n # (if st n = 0 then run_upto st ns else [])"

text \<open>The value that follows a flag in an argument list.\<close>

fun arg_value :: "string \<Rightarrow> string list \<Rightarrow> string option" where
  "arg_value flag (a # b # rest) = (if a = flag then Some b else arg_value flag (b # rest))"
| "arg_value flag _ = None"

text \<open>The state in which the body of the \<^verbatim>\<open>with\<close> block starts.\<close>

definition at_entry :: "config \<Rightarrow> world \<Rightarrow> state \<Rightarrow> state" where
  "at_entry config w s0 =
     s0\<lparr>environ := (environ s0)(''WANDB_PROJECT'' \<mapsto> main_project_name config,
                                ''WANDB_RUN_GROUP'' \<mapsto> main_experiment_name config),
        fs := (fs s0)(mkdtemp w \<mapsto> Dir)\<rparr>"

text \<open>
  What every stage of the chain has in common: it leaves the environment and the current
  directory alone, and it either raises before it reaches its collaborator, or calls it
  once, under its own name, and raises exactly when the status is not 0.
\<close>

definition stage_step :: "world \<Rightarrow> string \<Rightarrow> step \<Rightarrow> bool" where
  "stage_step w n f \<longleftrightarrow>
     (\<forall>s. environ (snd (f s)) = environ s \<and> cwd (snd (f s)) = cwd s \<and>
          ((fst (f s) \<noteq> None \<and> calls (snd (f s)) = calls s) \<or>
           (\<exists>a. calls (snd (f s)) =
                  calls s @ [\<lparr>stage = n,
                              run_group = (environ s ''WANDB_PROJECT'', environ s ''WANDB_RUN_GROUP''),
                              act = a\<rparr>] \<and>
                (fst (f s) = None) = (exit_status w n = 0))))"

subsection \<open>A sample run\<close>

text \<open>
  A configuration in the shape of the project's \<^verbatim>\<open>config.yaml\<close>, a world in which every
  collaborator succeeds, and a process started by hydra in its output directory.
\<close>

definition sample_config :: config where
  "sample_config =
     \<lparr>main_project_name = ''nyc_airbnb'',
      main_experiment_name = ''development'',
      main_steps = ''all'',
      main_components_repository = ''https://example.org/components'',
      etl_sample = ''sample.csv'',
      etl_output_artifact = ''clean_sample.csv'',
      etl_output_type = ''clean_sample'',
      etl_output_description = ''Data with outliers and null values removed'',
      etl_min_price = VInt 10,
      etl_max_price = VInt 1000,
      data_check_kl_threshold = VFloat ''0.2'',
      modeling_test_size = VFloat ''0.2'',
      modeling_random_seed = VInt 42,
      modeling_stratify_by = ''neighbourhood_group'',
      modeling_val_size = VFloat ''0.2'',
      modeling_max_tfidf_features = VInt 5,
      modeling_output_artifact = ''random_forest_export'',
      modeling_random_forest = [(''n_estimators'', VInt 100)]\<rparr>"

definition sample_world :: world where
  "sample_world =
     \<lparr>get_original_cwd = ''/home/op/project'',
      mkdtemp = ''/tmp/tmpk3x9w2'',
      exit_status = (\<lambda>_. 0),
      can_write = (\<lambda>_. True)\<rparr>"

definition sample_state :: state where
  "sample_state =
     \<lparr>environ = Map.empty,
      cwd = ''/home/op/project/outputs/run1'',
      fs = [''/home/op/project/outputs/run1'' \<mapsto> Dir],
      calls = []\<rparr>"

section \<open>Properties of the chain\<close>

subsection \<open>Stages and chains of stages\<close>

lemma split_from_nonempty: "split_from tok s sep \<noteq> []"
  by (induction s arbitrary: tok) auto

lemma str_split_nonempty: "str_split s sep \<noteq> []"
  by (simp add: str_split_def split_from_nonempty)

lemma invoke_stage_step: "stage_step w n (invoke w n a exn)"
  by (simp add: stage_step_def invoke_def Let_def)

lemma train_stage_step: "stage_step w ''train_random_forest'' (train_random_forest config w d)"
  by (simp add: stage_step_def train_random_forest_def invoke_def Let_def)

lemma pipeline_stage_step:
  "(n, f) \<in> set (pipeline config w d) \<Longrightarrow> stage_step w n f"
  by (auto simp: pipeline_def download_def basic_cleaning_def data_check_def data_split_def
        test_regression_model_def Let_def invoke_stage_step train_stage_step)

lemma pipeline_names: "map fst (pipeline config w d) = stage_order"
  by (simp add: pipeline_def stage_order_def steps_table_def)

lemma run_chain_trace:
  assumes "\<forall>(n, f) \<in> set pl. stage_step w n f"
  shows "\<exists>cs. calls (snd (run_chain active pl s)) = calls s @ cs \<and>
              environ (snd (run_chain active pl s)) = environ s \<and>
              cwd (snd (run_chain active pl s)) = cwd s \<and>
              (\<forall>c \<in> set cs. run_group c = (environ s ''WANDB_PROJECT'', environ s ''WANDB_RUN_GROUP'')) \<and>
              prefix (map stage cs)
                (run_upto (exit_status w) (filter (\<lambda>n. n \<in> set active) (map fst pl))) \<and>
              (fst (run_chain active pl s) = None \<longrightarrow>
                 map stage cs = filter (\<lambda>n. n \<in> set active) (map fst pl))"
  using assms
proof (induction pl arbitrary: s)
  case Nil
  then show ?case by simp
next
  case (Cons p pl)
  obtain n f where p: "p = (n, f)" by (cases p)
  have step: "stage_step w n f" using Cons.prems p by simp
  have rest: "\<forall>(m, g) \<in> set pl. stage_step w m g" using Cons.prems by simp
  show ?case
  proof (cases "n \<in> set active")
    case False
    with Cons.IH [OF rest, of s] p show ?thesis by simp
  next
    case True
    obtain r s' where fs: "f s = (r, s')" by (cases "f s")
    from step fs have env: "environ s' = environ s" and wd: "cwd s' = cwd s"
      by (auto simp: stage_step_def dest: spec [of _ s])
    from step fs consider
        (early) "r \<noteq> None" "calls s' = calls s"
      | (called) a where "calls s' = calls s @ [\<lparr>stage = n,
                              run_group = (environ s ''WANDB_PROJECT'', environ s ''WANDB_RUN_GROUP''),
                              act = a\<rparr>]" "(r = None) = (exit_status w n = 0)"
      by (auto simp: stage_step_def dest: spec [of _ s])
    then show ?thesis
    proof cases
      case early
      then obtain e where "r = Some e" by auto
      with early True p fs env wd show ?thesis by simp
    next
      case called
      show ?thesis
      proof (cases r)
        case (Some e)
        with called True p fs env wd show ?thesis by simp
      next
        case None
        from Cons.IH [OF rest, of s'] obtain cs where
          cs: "calls (snd (run_chain active pl s')) = calls s' @ cs"
              "environ (snd (run_chain active pl s')) = environ s'"
              "cwd (snd (run_chain active pl s')) = cwd s'"
              "\<forall>c \<in> set cs. run_group c = (environ s' ''WANDB_PROJECT'', environ s' ''WANDB_RUN_GROUP'')"
              "prefix (map stage cs)
                (run_upto (exit_status w) (filter (\<lambda>n. n \<in> set active) (map fst pl)))"
              "fst (run_chain active pl s') = None \<longrightarrow>
                 map stage cs = filter (\<lambda>n. n \<in> set active) (map fst pl)"
          by (elim exE conjE) (rule that; assumption)
        let ?c = "\<lparr>stage = n,
                              run_group = (environ s ''WANDB_PROJECT'', environ s ''WANDB_RUN_GROUP''),
                              act = a\<rparr>"
        have "calls (snd (run_chain active (p # pl) s)) = calls s @ (?c # cs)"
          using None called True p fs cs by simp
        moreover have "environ (snd (run_chain active (p # pl) s)) = environ s"
          "cwd (snd (run_chain active (p # pl) s)) = cwd s"
          using None True p fs cs env wd by simp_all
        moreover have "\<forall>c \<in> set (?c # cs). run_group c = (environ s ''WANDB_PROJECT'', environ s ''WANDB_RUN_GROUP'')"
          using cs env by simp
        moreover have "prefix (map stage (?c # cs))
                (run_upto (exit_status w) (filter (\<lambda>n. n \<in> set active) (map fst (p # pl))))"
          using None called True p cs by simp
        moreover have "fst (run_chain active (p # pl) s) = None \<longrightarrow>
                 map stage (?c # cs) = filter (\<lambda>n. n \<in> set active) (map fst (p # pl))"
          using None True p fs cs by simp
        ultimately show ?thesis by (intro exI [of _ "?c # cs"] conjI)
      qed
    qed
  qed
qed

lemma run_chain_same_selection:
  assumes "\<And>n. n \<in> fst ` set pl \<Longrightarrow> (n \<in> set active) = (n \<in> set active')"
  shows "run_chain active pl s = run_chain active' pl s"
  using assms
proof (induction pl arbitrary: s)
  case Nil
  then show ?case by simp
next
  case (Cons p pl)
  obtain n f where p: "p = (n, f)" by (cases p)
  have "(n \<in> set active) = (n \<in> set active')" using Cons.prems p by simp
  moreover have "\<And>t. run_chain active pl t = run_chain active' pl t"
    using Cons by simp
  ultimately show ?case using p by (simp split: prod.splits option.splits)
qed

lemma run_chain_none_selected:
  assumes "\<And>n. n \<in> fst ` set pl \<Longrightarrow> n \<notin> set active"
  shows "run_chain active pl s = (None, s)"
  using assms
proof (induction pl arbitrary: s)
  case Nil
  then show ?case by simp
next
  case (Cons p pl)
  obtain n f where p: "p = (n, f)" by (cases p)
  with Cons show ?case by simp
qed

lemma run_chain_all_succeed:
  assumes "\<forall>(n, f) \<in> set pl. \<forall>t. fst (f t) = None"
  shows "fst (run_chain active pl s) = None"
  using assms
proof (induction pl arbitrary: s)
  case Nil
  then show ?case by simp
next
  case (Cons p pl)
  obtain n f where p: "p = (n, f)" by (cases p)
  have "fst (f s) = None" using Cons.prems p by simp
  then obtain s' where "f s = (None, s')" by (cases "f s") simp
  with Cons p show ?case by simp
qed

lemma go_unfold:
  "go config w s0 =
     (fst (run_chain (active_steps config) (pipeline config w (get_original_cwd w)) (at_entry config w s0)),
      (snd (run_chain (active_steps config) (pipeline config w (get_original_cwd w)) (at_entry config w s0)))
        \<lparr>fs := rmtree (mkdtemp w)
            (fs (snd (run_chain (active_steps config) (pipeline config w (get_original_cwd w)) (at_entry config w s0))))\<rparr>)"
  by (simp add: go_def at_entry_def Let_def case_prod_beta)


lemma run_chain_ok_status:
  assumes "\<forall>(n, f) \<in> set pl. stage_step w n f"
    and "fst (run_chain active pl s) = None"
  shows "\<forall>n \<in> set (filter (\<lambda>n. n \<in> set active) (map fst pl)). exit_status w n = 0"
  using assms
proof (induction pl arbitrary: s)
  case Nil
  then show ?case by simp
next
  case (Cons p pl)
  obtain n f where p: "p = (n, f)" by (cases p)
  have step: "stage_step w n f" using Cons.prems p by simp
  have rest: "\<forall>(m, g) \<in> set pl. stage_step w m g" using Cons.prems by simp
  show ?case
  proof (cases "n \<in> set active")
    case False
    with Cons.IH [OF rest, of s] Cons.prems(2) p show ?thesis by simp
  next
    case True
    obtain r s' where fs: "f s = (r, s')" by (cases "f s")
    have r: "r = None" using Cons.prems(2) True p fs by (cases r) simp_all
    then have "exit_status w n = 0"
      using step fs by (auto simp: stage_step_def dest: spec [of _ s])
    moreover have "fst (run_chain active pl s') = None"
      using Cons.prems(2) True p fs r by simp
    ultimately show ?thesis using Cons.IH [OF rest, of s'] True p by simp
  qed
qed

lemma run_chain_calls_all:
  assumes "\<forall>(n, f) \<in> set pl. stage_step w n f"
    and "\<forall>(n, f) \<in> set pl. \<forall>t. \<forall>c \<in> set (new_calls t (snd (f t))). P c"
  shows "\<forall>c \<in> set (new_calls s (snd (run_chain active pl s))). P c"
  using assms
proof (induction pl arbitrary: s)
  case Nil
  then show ?case by (simp add: new_calls_def)
next
  case (Cons p pl)
  obtain n f where p: "p = (n, f)" by (cases p)
  have step: "stage_step w n f" using Cons.prems p by simp
  have rest: "\<forall>(m, g) \<in> set pl. stage_step w m g"
    "\<forall>(n, f) \<in> set pl. \<forall>t. \<forall>c \<in> set (new_calls t (snd (f t))). P c"
    using Cons.prems by simp_all
  have here: "\<forall>c \<in> set (new_calls s (snd (f s))). P c" using Cons.prems(2) p by simp
  show ?case
  proof (cases "n \<in> set active")
    case False
    with Cons.IH [OF rest, of s] p show ?thesis by simp
  next
    case True
    obtain r s' where fs: "f s = (r, s')" by (cases "f s")
    from step fs obtain cs where cs: "calls s' = calls s @ cs"
      by (auto simp: stage_step_def dest: spec [of _ s])
    show ?thesis
    proof (cases r)
      case (Some e)
      with True p fs here show ?thesis by simp
    next
      case None
      from run_chain_trace [OF rest(1), of active s'] obtain ds where
        ds: "calls (snd (run_chain active pl s')) = calls s' @ ds" by blast
      have "new_calls s (snd (run_chain active (p # pl) s)) = cs @ ds"
        using None True p fs cs ds by (simp add: new_calls_def)
      moreover have "new_calls s (snd (f s)) = cs" using fs cs by (simp add: new_calls_def)
      moreover have "new_calls s' (snd (run_chain active pl s')) = ds"
        using ds by (simp add: new_calls_def)
      ultimately show ?thesis using here Cons.IH [OF rest, of s'] by auto
    qed
  qed
qed

lemma at_entry_simps:
  "calls (at_entry config w s) = calls s"
  "cwd (at_entry config w s) = cwd s"
  "environ (at_entry config w s) ''WANDB_PROJECT'' = Some (main_project_name config)"
  "environ (at_entry config w s) ''WANDB_RUN_GROUP'' = Some (main_experiment_name config)"
  by (simp_all add: at_entry_def)

lemma go_fst:
  "fst (go config w s) =
     fst (run_chain (active_steps config) (pipeline config w (get_original_cwd w)) (at_entry config w s))"
  by (simp add: go_unfold)

lemma go_calls:
  "calls (snd (go config w s)) =
     calls (snd (run_chain (active_steps config) (pipeline config w (get_original_cwd w)) (at_entry config w s)))"
  by (simp add: go_unfold)

lemma go_new_calls:
  "new_calls s (snd (go config w s)) =
     new_calls (at_entry config w s)
       (snd (run_chain (active_steps config) (pipeline config w (get_original_cwd w)) (at_entry config w s)))"
  by (simp add: new_calls_def go_calls at_entry_simps)

lemma pipeline_all_steps: "\<forall>(n, f) \<in> set (pipeline config w d). stage_step w n f"
  using pipeline_stage_step by blast

lemma go_trace:
  "\<exists>cs. new_calls s (snd (go config w s)) = cs \<and>
        (\<forall>c \<in> set cs. run_group c = (Some (main_project_name config), Some (main_experiment_name config))) \<and>
        prefix (map stage cs)
          (run_upto (exit_status w) (filter (\<lambda>n. n \<in> set (active_steps config)) stage_order)) \<and>
        (fst (go config w s) = None \<longrightarrow>
           map stage cs = filter (\<lambda>n. n \<in> set (active_steps config)) stage_order)"
proof -
  let ?R = "run_chain (active_steps config) (pipeline config w (get_original_cwd w)) (at_entry config w s)"
  let ?A = "at_entry config w s"
  let ?names = "map fst (pipeline config w (get_original_cwd w))"
  have "\<exists>cs. calls (snd ?R) = calls ?A @ cs \<and>
              environ (snd ?R) = environ ?A \<and>
              cwd (snd ?R) = cwd ?A \<and>
              (\<forall>c \<in> set cs. run_group c = (environ ?A ''WANDB_PROJECT'', environ ?A ''WANDB_RUN_GROUP'')) \<and>
              prefix (map stage cs)
                (run_upto (exit_status w) (filter (\<lambda>n. n \<in> set (active_steps config)) ?names)) \<and>
              (fst ?R = None \<longrightarrow> map stage cs = filter (\<lambda>n. n \<in> set (active_steps config)) ?names)"
    by (rule run_chain_trace [OF pipeline_all_steps])
  then obtain cs where
    cs: "calls (snd ?R) = calls ?A @ cs"
        "\<forall>c \<in> set cs. run_group c = (environ ?A ''WANDB_PROJECT'', environ ?A ''WANDB_RUN_GROUP'')"
        "prefix (map stage cs)
                (run_upto (exit_status w) (filter (\<lambda>n. n \<in> set (active_steps config)) ?names))"
        "fst ?R = None \<longrightarrow> map stage cs = filter (\<lambda>n. n \<in> set (active_steps config)) ?names"
    by (elim exE conjE) (rule that; assumption)
  have "new_calls s (snd (go config w s)) = cs"
    unfolding go_new_calls by (simp add: new_calls_def cs(1))
  with cs show ?thesis by (simp add: at_entry_simps pipeline_names go_fst)
qed

lemma stages_run_prefix:
  "prefix (stages_run config w s)
     (run_upto (exit_status w) (filter (\<lambda>n. n \<in> set (active_steps config)) stage_order))"
  using go_trace [of s config w] by (simp add: stages_run_def)

lemma stages_run_complete:
  "fst (go config w s) = None \<Longrightarrow>
     stages_run config w s = filter (\<lambda>n. n \<in> set (active_steps config)) stage_order"
  using go_trace [of s config w] by (simp add: stages_run_def)

lemma run_upto_prefix: "prefix (run_upto st xs) xs"
  by (induction xs) auto

lemma run_upto_failed:
  "n \<in> set (run_upto st xs) \<Longrightarrow> st n \<noteq> 0 \<Longrightarrow>
     set (run_upto st xs) \<subseteq> insert n (set (takeWhile (\<lambda>m. m \<noteq> n) xs))"
  by (induction xs) (auto split: if_splits)

lemma takeWhile_filter_subset:
  "P n \<Longrightarrow> set (takeWhile (\<lambda>m. m \<noteq> n) (filter P xs)) \<subseteq> set (takeWhile (\<lambda>m. m \<noteq> n) xs)"
  by (induction xs) auto

lemma in_tl_dropWhileD: "x \<in> set (tl (dropWhile P xs)) \<Longrightarrow> x \<in> set xs"
  by (induction xs) (auto split: if_splits)

lemma later_disjoint:
  assumes "distinct xs"
  shows "set (tl (dropWhile (\<lambda>m. m \<noteq> n) xs)) \<inter> insert n (set (takeWhile (\<lambda>m. m \<noteq> n) xs)) = {}"
  using assms
  by (induction xs) (auto dest: in_tl_dropWhileD)

lemma distinct_stage_order: "distinct stage_order"
  by (simp add: stage_order_def steps_table_def)

lemma go_workspace_removed:
  "under (mkdtemp w) p \<Longrightarrow> fs (snd (go config w s)) p = None"
  by (simp add: go_unfold rmtree_def)

lemma under_refl: "under d d"
  by (simp add: under_def)

lemmas chain_defs =
  stages_run_def new_calls_def go_def active_steps_def str_split_def steps_table_def
  stage_order_def pipeline_def download_def basic_cleaning_def data_check_def data_split_def
  train_random_forest_def test_regression_model_def invoke_def Let_def

lemmas run_defs = chain_defs rmtree_def under_def abspath_def path_join_def

lemmas sample_defs = sample_config_def sample_world_def sample_state_def

lemmas str_int_defs = str_int_def nat_digits.simps digit_char_def

lemma go_ok_status:
  assumes "fst (go config w s) = None"
  shows "\<forall>n \<in> set (filter (\<lambda>n. n \<in> set (active_steps config)) stage_order). exit_status w n = 0"
proof -
  have ok: "fst (run_chain (active_steps config) (pipeline config w (get_original_cwd w))
                  (at_entry config w s)) = None"
    using assms by (simp add: go_fst)
  show ?thesis
    using run_chain_ok_status [OF pipeline_all_steps ok] by (simp add: pipeline_names)
qed

lemma stages_run_subset:
  "set (stages_run config w s) \<subseteq> set (active_steps config) \<inter> set stage_order"
proof -
  let ?F = "filter (\<lambda>n. n \<in> set (active_steps config)) stage_order"
  have "set (stages_run config w s) \<subseteq> set (run_upto (exit_status w) ?F)"
    using stages_run_prefix [of config w s] by (rule set_mono_prefix)
  also have "\<dots> \<subseteq> set ?F"
    using run_upto_prefix [of "exit_status w" ?F] by (rule set_mono_prefix)
  finally show ?thesis by auto
qed

lemma stages_run_prefix_filter:
  "prefix (stages_run config w s) (filter (\<lambda>n. n \<in> set (active_steps config)) stage_order)"
  using stages_run_prefix [of config w s] run_upto_prefix prefix_order.trans by blast

lemma active_steps_all: "main_steps config = ''all'' \<Longrightarrow> active_steps config = steps_table"
  by (simp add: active_steps_def)

lemma active_steps_split:
  "main_steps config \<noteq> ''all'' \<Longrightarrow> active_steps config = str_split (main_steps config) CHR '',''"
  by (simp add: active_steps_def)

lemma filter_steps_table: "filter (\<lambda>n. n \<in> set steps_table) stage_order = steps_table"
  by (simp add: steps_table_def stage_order_def)

lemma train_steps_irrelevant:
  "train_random_forest (config\<lparr>main_steps := d\<rparr>) w o' = train_random_forest config w o'"
  by (rule ext) (simp add: train_random_forest_def train_random_forest_args_def Let_def)

lemma pipeline_steps_irrelevant:
  "pipeline (config\<lparr>main_steps := d\<rparr>) w o' = pipeline config w o'"
  by (simp add: pipeline_def download_def basic_cleaning_def data_check_def data_split_def
        test_regression_model_def basic_cleaning_args_def data_check_args_def
        train_steps_irrelevant)

lemma at_entry_steps_irrelevant:
  "at_entry (config\<lparr>main_steps := d\<rparr>) w s = at_entry config w s"
  by (simp add: at_entry_def)

lemma pipeline_name_set: "fst ` set (pipeline config w d) = set stage_order"
  using pipeline_names [of config w d] by (metis set_map)

lemma go_same_selection:
  assumes "\<And>n. n \<in> set stage_order \<Longrightarrow>
             (n \<in> set (active_steps (config\<lparr>main_steps := d\<rparr>))) = (n \<in> set (active_steps config))"
  shows "go (config\<lparr>main_steps := d\<rparr>) w s = go config w s"
proof -
  have "run_chain (active_steps (config\<lparr>main_steps := d\<rparr>)) (pipeline config w (get_original_cwd w))
          (at_entry config w s) =
        run_chain (active_steps config) (pipeline config w (get_original_cwd w)) (at_entry config w s)"
    by (rule run_chain_same_selection) (use assms in \<open>simp add: pipeline_name_set\<close>)
  then show ?thesis
    by (simp add: go_unfold pipeline_steps_irrelevant at_entry_steps_irrelevant)
qed

lemma go_none_selected:
  assumes "set (active_steps config) \<inter> set stage_order = {}"
  shows "go config w s = (None, (at_entry config w s)\<lparr>fs := rmtree (mkdtemp w) (fs (at_entry config w s))\<rparr>)"
proof -
  have "run_chain (active_steps config) (pipeline config w (get_original_cwd w)) (at_entry config w s)
          = (None, at_entry config w s)"
    by (rule run_chain_none_selected) (use assms in \<open>auto simp: pipeline_name_set\<close>)
  then show ?thesis by (simp add: go_unfold)
qed

lemma go_environ:
  "environ (snd (go config w s)) = environ (at_entry config w s)"
proof -
  let ?R = "run_chain (active_steps config) (pipeline config w (get_original_cwd w)) (at_entry config w s)"
  let ?A = "at_entry config w s"
  let ?names = "map fst (pipeline config w (get_original_cwd w))"
  have "\<exists>cs. calls (snd ?R) = calls ?A @ cs \<and>
              environ (snd ?R) = environ ?A \<and>
              cwd (snd ?R) = cwd ?A \<and>
              (\<forall>c \<in> set cs. run_group c = (environ ?A ''WANDB_PROJECT'', environ ?A ''WANDB_RUN_GROUP'')) \<and>
              prefix (map stage cs)
                (run_upto (exit_status w) (filter (\<lambda>n. n \<in> set (active_steps config)) ?names)) \<and>
              (fst ?R = None \<longrightarrow> map stage cs = filter (\<lambda>n. n \<in> set (active_steps config)) ?names)"
    by (rule run_chain_trace [OF pipeline_all_steps])
  then have "environ (snd ?R) = environ ?A" by blast
  then show ?thesis by (simp add: go_unfold)
qed

lemma join_split_from:
  "join_str [sep] (split_from tok s sep) = tok @ s"
proof (induction s arbitrary: tok)
  case Nil
  then show ?case by simp
next
  case (Cons c cs)
  show ?case
  proof (cases "c = sep")
    case True
    obtain t ts where ts: "split_from [] cs sep = t # ts"
      using split_from_nonempty [of "[]" cs sep] by (cases "split_from [] cs sep") auto
    have "join_str [sep] (tok # t # ts) = tok @ [sep] @ join_str [sep] (t # ts)" by simp
    also have "join_str [sep] (t # ts) = cs" using Cons.IH [of "[]"] ts by simp
    finally show ?thesis using True ts by simp
  next
    case False
    then show ?thesis using Cons.IH [of "tok @ [c]"] by simp
  qed
qed

lemma join_str_split: "join_str [sep] (str_split s sep) = s"
  by (simp add: str_split_def join_split_from)

lemma split_all: "str_split ''all'' CHR '','' = [''all'']"
  by (simp add: str_split_def)

lemma distinct_stages_run: "distinct (stages_run config w s)"
proof -
  let ?F = "filter (\<lambda>n. n \<in> set (active_steps config)) stage_order"
  have "distinct ?F" using distinct_stage_order by simp
  moreover obtain zs where "?F = stages_run config w s @ zs"
    using stages_run_prefix_filter [of config w s] by (auto simp: prefix_def)
  ultimately show ?thesis by simp
qed

lemma pipeline_actions:
  "\<forall>(n, f) \<in> set (pipeline config w d). \<forall>t. \<forall>c \<in> set (new_calls t (snd (f t))).
     (stage c = ''basic_cleaning'' \<longrightarrow>
        act c = SubprocessRun (basic_cleaning_args config) (path_join d ''src/basic_cleaning'')) \<and>
     (stage c = ''download'' \<longrightarrow>
        act c = LogArtifact (etl_sample config) ''raw_data'' ''Raw data from local file''
                  (path_join (path_join d ''data'') (etl_sample config)))"
  by (simp add: pipeline_def download_def basic_cleaning_def data_check_def data_split_def
        train_random_forest_def test_regression_model_def invoke_def new_calls_def Let_def)

lemma go_actions:
  "\<forall>c \<in> set (new_calls s (snd (go config w s))).
     (stage c = ''basic_cleaning'' \<longrightarrow>
        act c = SubprocessRun (basic_cleaning_args config)
                  (path_join (get_original_cwd w) ''src/basic_cleaning'')) \<and>
     (stage c = ''download'' \<longrightarrow>
        act c = LogArtifact (etl_sample config) ''raw_data'' ''Raw data from local file''
                  (path_join (path_join (get_original_cwd w) ''data'') (etl_sample config)))"
  unfolding go_new_calls
  by (rule run_chain_calls_all [OF pipeline_all_steps pipeline_actions])

lemma split_from_append:
  "sep \<notin> set t \<Longrightarrow> split_from tok (t @ rest) sep = split_from (tok @ t) rest sep"
  by (induction t arbitrary: tok) auto

lemma split_from_join:
  "\<forall>t \<in> set ts. sep \<notin> set t \<Longrightarrow> ts \<noteq> [] \<Longrightarrow>
     split_from [] (join_str [sep] ts) sep = ts"
proof (induction "[sep]" ts rule: join_str.induct)
  case 1
  then show ?case by simp
next
  case (2 x)
  then show ?case using split_from_append [of sep x "[]" "[]"] by simp
next
  case (3 x y ys)
  then have "split_from [] (join_str [sep] (y # ys)) sep = y # ys" by simp
  moreover have "sep \<notin> set x" using 3 by simp
  ultimately show ?case
    using split_from_append [of sep x "[]" "sep # join_str [sep] (y # ys)"] by simp
qed

lemma str_split_join:
  "\<forall>t \<in> set ts. sep \<notin> set t \<Longrightarrow> ts \<noteq> [] \<Longrightarrow> str_split (join_str [sep] ts) sep = ts"
  by (simp add: str_split_def split_from_join)

lemma stage_names_no_comma: "t \<in> set stage_order \<Longrightarrow> CHR '','' \<notin> set t"
  by (auto simp: stage_order_def steps_table_def)

lemma all_not_stage: "''all'' \<notin> set stage_order"
  by (simp add: stage_order_def steps_table_def)

lemma empty_not_stage: "[] \<notin> set stage_order"
  by (simp add: stage_order_def steps_table_def)

text \<open>
  A directive made of stage names only, joined by commas, selects exactly those stages;
  with no names at all it is the empty directive, which selects none.
\<close>

lemma active_steps_join:
  assumes "set ts \<subseteq> set stage_order"
  shows "set (active_steps (config\<lparr>main_steps := join_str '','' ts\<rparr>)) \<inter> set stage_order = set ts"
proof (cases "ts = []")
  case True
  then show ?thesis using empty_not_stage by (simp add: active_steps_def str_split_def)
next
  case False
  have nc: "\<forall>t \<in> set ts. CHR '','' \<notin> set t" using assms stage_names_no_comma by blast
  have sp: "str_split (join_str '','' ts) CHR '','' = ts"
    using str_split_join [OF nc False] by simp
  have "join_str '','' ts \<noteq> ''all''"
  proof
    assume "join_str '','' ts = ''all''"
    with sp have "ts = [''all'']" by (simp add: split_all)
    with assms all_not_stage show False by simp
  qed
  then have "active_steps (config\<lparr>main_steps := join_str '','' ts\<rparr>) = ts"
    using sp by (simp add: active_steps_def)
  with assms show ?thesis by auto
qed

section \<open>The claims\<close>

text \<open>
  C2. Whatever the active steps are: when a stage has run and the status of its process is
  not 0, no stage that comes later in the canonical order runs in that invocation, the
  invocation ends with an exception, and afterwards neither the temporary directory nor
  anything inside it exists.
\<close>

theorem failed_stage_stops_chain:
  assumes ran: "n \<in> set (stages_run config w s)"
    and failed: "exit_status w n \<noteq> 0"
  shows "set (later_stages n) \<inter> set (stages_run config w s) = {} \<and>
         fst (go config w s) \<noteq> None \<and>
         fs (snd (go config w s)) (mkdtemp w) = None \<and>
         (\<forall>p. under (mkdtemp w) p \<longrightarrow> fs (snd (go config w s)) p = None)"
proof -
  let ?P = "\<lambda>n. n \<in> set (active_steps config)"
  let ?F = "filter ?P stage_order"
  have sub: "set (stages_run config w s) \<subseteq> set (run_upto (exit_status w) ?F)"
    using stages_run_prefix [of config w s] by (rule set_mono_prefix)
  with ran have n_run: "n \<in> set (run_upto (exit_status w) ?F)" by blast
  then have "n \<in> set ?F"
    using set_mono_prefix [OF run_upto_prefix [of "exit_status w" ?F]] by blast
  then have sel: "?P n" by simp
  have "set (run_upto (exit_status w) ?F) \<subseteq> insert n (set (takeWhile (\<lambda>m. m \<noteq> n) ?F))"
    using n_run failed by (rule run_upto_failed)
  also have "\<dots> \<subseteq> insert n (set (takeWhile (\<lambda>m. m \<noteq> n) stage_order))"
    using takeWhile_filter_subset [of ?P n stage_order] sel by blast
  finally have "set (stages_run config w s) \<subseteq> insert n (set (takeWhile (\<lambda>m. m \<noteq> n) stage_order))"
    using sub by blast
  then have later: "set (later_stages n) \<inter> set (stages_run config w s) = {}"
    using later_disjoint [OF distinct_stage_order, of n] by (auto simp: later_stages_def)
  have raised: "fst (go config w s) \<noteq> None"
  proof
    assume ok: "fst (go config w s) = None"
    then have "stages_run config w s = ?F" by (rule stages_run_complete)
    with ran go_ok_status [OF ok] failed show False by simp
  qed
  have gone: "\<forall>p. under (mkdtemp w) p \<longrightarrow> fs (snd (go config w s)) p = None"
    by (simp add: go_workspace_removed)
  then have "fs (snd (go config w s)) (mkdtemp w) = None"
    using under_refl by blast
  with later raised gone show ?thesis by blast
qed

text \<open>The sample run with a failing \<^verbatim>\<open>data_check\<close>.\<close>

theorem failed_stage_stops_chain_witness:
  "''data_check'' \<in> set (stages_run sample_config (sample_world\<lparr>exit_status := (\<lambda>n. if n = ''data_check'' then 1 else 0)\<rparr>) sample_state) \<and>
   exit_status (sample_world\<lparr>exit_status := (\<lambda>n. if n = ''data_check'' then 1 else 0)\<rparr>) ''data_check'' \<noteq> 0 \<and>
   stages_run sample_config (sample_world\<lparr>exit_status := (\<lambda>n. if n = ''data_check'' then 1 else 0)\<rparr>) sample_state
     = [''download'', ''basic_cleaning'', ''data_check''] \<and>
   later_stages ''data_check'' = [''data_split'', ''train_random_forest'', ''test_regression_model''] \<and>
   set (later_stages ''data_check'') \<inter>
     set (stages_run sample_config (sample_world\<lparr>exit_status := (\<lambda>n. if n = ''data_check'' then 1 else 0)\<rparr>) sample_state) = {} \<and>
   fst (go sample_config (sample_world\<lparr>exit_status := (\<lambda>n. if n = ''data_check'' then 1 else 0)\<rparr>) sample_state) \<noteq> None \<and>
   fs (snd (go sample_config (sample_world\<lparr>exit_status := (\<lambda>n. if n = ''data_check'' then 1 else 0)\<rparr>) sample_state)) ''/tmp/tmpk3x9w2'' = None"
proof -
  let ?w = "sample_world\<lparr>exit_status := (\<lambda>n. if n = ''data_check'' then 1 else 0)\<rparr>"
  have run: "stages_run sample_config ?w sample_state = [''download'', ''basic_cleaning'', ''data_check'']"
    by (simp add: run_defs sample_defs)
  have ran: "''data_check'' \<in> set (stages_run sample_config ?w sample_state)"
    by (simp add: run)
  have failed: "exit_status ?w ''data_check'' \<noteq> 0" by simp
  have later: "later_stages ''data_check'' = [''data_split'', ''train_random_forest'', ''test_regression_model'']"
    by (simp add: later_stages_def stage_order_def steps_table_def)
  have tmp: "mkdtemp ?w = ''/tmp/tmpk3x9w2''" by (simp add: sample_world_def)
  from failed_stage_stops_chain [OF ran failed] run later tmp failed show ?thesis
    by simp
qed

text \<open>
  C1. When the steps directive is the string \<^verbatim>\<open>all\<close>, the active steps are exactly the table
  \<^verbatim>\<open>download, basic_cleaning, data_check, data_split, train_random_forest\<close> in that order,
  without \<^verbatim>\<open>test_regression_model\<close>: the stages that run are a prefix of the table, and the
  whole table when the invocation ends without an exception. And
  \<^verbatim>\<open>test_regression_model\<close> runs only when it is one of the tokens of a directive other
  than \<^verbatim>\<open>all\<close>.
\<close>

theorem all_runs_steps_table:
  "(main_steps config = ''all'' \<longrightarrow>
      active_steps config =
        [''download'', ''basic_cleaning'', ''data_check'', ''data_split'', ''train_random_forest''] \<and>
      ''test_regression_model'' \<notin> set (active_steps config) \<and>
      prefix (stages_run config w s)
        [''download'', ''basic_cleaning'', ''data_check'', ''data_split'', ''train_random_forest''] \<and>
      (fst (go config w s) = None \<longrightarrow>
         stages_run config w s =
           [''download'', ''basic_cleaning'', ''data_check'', ''data_split'', ''train_random_forest''])) \<and>
   (''test_regression_model'' \<in> set (stages_run config w s) \<longrightarrow>
      main_steps config \<noteq> ''all'' \<and>
      ''test_regression_model'' \<in> set (str_split (main_steps config) CHR '',''))"
proof (intro conjI impI)
  assume a: "main_steps config = ''all''"
  then have act: "active_steps config = steps_table" by (rule active_steps_all)
  then show "active_steps config =
        [''download'', ''basic_cleaning'', ''data_check'', ''data_split'', ''train_random_forest'']"
    by (simp add: steps_table_def)
  from act show "''test_regression_model'' \<notin> set (active_steps config)"
    by (simp add: steps_table_def)
  from stages_run_prefix_filter [of config w s] act
  show "prefix (stages_run config w s)
        [''download'', ''basic_cleaning'', ''data_check'', ''data_split'', ''train_random_forest'']"
    by (simp only: filter_steps_table) (simp add: steps_table_def)
  assume "fst (go config w s) = None"
  from stages_run_complete [OF this] act
  show "stages_run config w s =
           [''download'', ''basic_cleaning'', ''data_check'', ''data_split'', ''train_random_forest'']"
    by (simp only: filter_steps_table) (simp add: steps_table_def)
next
  assume r: "''test_regression_model'' \<in> set (stages_run config w s)"
  with stages_run_subset [of config w s]
  have m: "''test_regression_model'' \<in> set (active_steps config)" by blast
  show ne: "main_steps config \<noteq> ''all''"
  proof
    assume "main_steps config = ''all''"
    then have "active_steps config = steps_table" by (rule active_steps_all)
    with m show False by (simp add: steps_table_def)
  qed
  from m active_steps_split [OF ne]
  show "''test_regression_model'' \<in> set (str_split (main_steps config) CHR '','')" by simp
qed

text \<open>
  The sample run under \<^verbatim>\<open>all\<close>, and the sample configuration with the directive
  \<^verbatim>\<open>test_regression_model\<close>.
\<close>

theorem all_runs_steps_table_witness:
  "main_steps sample_config = ''all'' \<and>
   active_steps sample_config =
     [''download'', ''basic_cleaning'', ''data_check'', ''data_split'', ''train_random_forest''] \<and>
   fst (go sample_config sample_world sample_state) = None \<and>
   stages_run sample_config sample_world sample_state =
     [''download'', ''basic_cleaning'', ''data_check'', ''data_split'', ''train_random_forest''] \<and>
   ''test_regression_model'' \<in>
     set (stages_run (sample_config\<lparr>main_steps := ''test_regression_model''\<rparr>) sample_world sample_state) \<and>
   ''test_regression_model'' \<in> set (str_split ''test_regression_model'' CHR '','')"
proof -
  have a: "main_steps sample_config = ''all''" by (simp add: sample_config_def)
  have ok: "fst (go sample_config sample_world sample_state) = None"
    by (simp add: run_defs sample_defs)
  have r: "''test_regression_model'' \<in>
     set (stages_run (sample_config\<lparr>main_steps := ''test_regression_model''\<rparr>) sample_world sample_state)"
    by (simp add: run_defs sample_defs)
  from all_runs_steps_table [of sample_config sample_world sample_state]
    all_runs_steps_table [of "sample_config\<lparr>main_steps := ''test_regression_model''\<rparr>" sample_world sample_state]
    a ok r
  show ?thesis by simp
qed

text \<open>
  C5. For a directive whose tokens all name stages, the stages that run are the canonical
  order restricted to the tokens, up to the first failure and all of it when the invocation
  ends without an exception, and a directive with the same tokens in any other order has
  the same run. The directive \<^verbatim>\<open>data_split,download\<close> runs \<^verbatim>\<open>download\<close> before
  \<^verbatim>\<open>data_split\<close>.
\<close>

theorem canonical_order_kept:
  assumes valid: "set (str_split d CHR '','') \<subseteq> set stage_order"
  shows "prefix (stages_run (config\<lparr>main_steps := d\<rparr>) w s)
           (filter (\<lambda>n. n \<in> set (str_split d CHR '','')) stage_order) \<and>
         (fst (go (config\<lparr>main_steps := d\<rparr>) w s) = None \<longrightarrow>
            stages_run (config\<lparr>main_steps := d\<rparr>) w s =
              filter (\<lambda>n. n \<in> set (str_split d CHR '','')) stage_order) \<and>
         (\<forall>d'. set (str_split d' CHR '','') = set (str_split d CHR '','') \<longrightarrow>
            go (config\<lparr>main_steps := d'\<rparr>) w s = go (config\<lparr>main_steps := d\<rparr>) w s) \<and>
         prefix (stages_run (config\<lparr>main_steps := ''data_split,download''\<rparr>) w s)
           [''download'', ''data_split'']"
proof -
  have not_all: "\<And>e. set (str_split e CHR '','') \<subseteq> set stage_order \<Longrightarrow> e \<noteq> ''all''"
  proof
    fix e assume "set (str_split e CHR '','') \<subseteq> set stage_order" "e = ''all''"
    then show False by (simp add: split_all stage_order_def steps_table_def)
  qed
  have act: "\<And>e. set (str_split e CHR '','') \<subseteq> set stage_order \<Longrightarrow>
               active_steps (config\<lparr>main_steps := e\<rparr>) = str_split e CHR '',''"
    using not_all by (simp add: active_steps_def)
  have one: "prefix (stages_run (config\<lparr>main_steps := d\<rparr>) w s)
           (filter (\<lambda>n. n \<in> set (str_split d CHR '','')) stage_order)"
    using stages_run_prefix_filter [of "config\<lparr>main_steps := d\<rparr>" w s] act [OF valid] by simp
  have two: "fst (go (config\<lparr>main_steps := d\<rparr>) w s) = None \<longrightarrow>
            stages_run (config\<lparr>main_steps := d\<rparr>) w s =
              filter (\<lambda>n. n \<in> set (str_split d CHR '','')) stage_order"
    using stages_run_complete [of "config\<lparr>main_steps := d\<rparr>" w s] act [OF valid] by simp
  have three: "\<forall>d'. set (str_split d' CHR '','') = set (str_split d CHR '','') \<longrightarrow>
            go (config\<lparr>main_steps := d'\<rparr>) w s = go (config\<lparr>main_steps := d\<rparr>) w s"
  proof (intro allI impI)
    fix d' assume same: "set (str_split d' CHR '','') = set (str_split d CHR '','')"
    with valid have valid': "set (str_split d' CHR '','') \<subseteq> set stage_order" by simp
    have "go ((config\<lparr>main_steps := d\<rparr>)\<lparr>main_steps := d'\<rparr>) w s = go (config\<lparr>main_steps := d\<rparr>) w s"
      by (rule go_same_selection) (use act [OF valid] act [OF valid'] same in simp)
    then show "go (config\<lparr>main_steps := d'\<rparr>) w s = go (config\<lparr>main_steps := d\<rparr>) w s" by simp
  qed
  have four: "prefix (stages_run (config\<lparr>main_steps := ''data_split,download''\<rparr>) w s)
           [''download'', ''data_split'']"
    using stages_run_prefix_filter [of "config\<lparr>main_steps := ''data_split,download''\<rparr>" w s]
    by (simp add: active_steps_def str_split_def stage_order_def steps_table_def)
  from one two three four show ?thesis by blast
qed

text \<open>The sample run with the directive \<^verbatim>\<open>data_split,download\<close>, and with its tokens swapped.\<close>

theorem canonical_order_kept_witness:
  "set (str_split ''data_split,download'' CHR '','') \<subseteq> set stage_order \<and>
   str_split ''data_split,download'' CHR '','' = [''data_split'', ''download''] \<and>
   fst (go (sample_config\<lparr>main_steps := ''data_split,download''\<rparr>) sample_world sample_state) = None \<and>
   stages_run (sample_config\<lparr>main_steps := ''data_split,download''\<rparr>) sample_world sample_state
     = [''download'', ''data_split''] \<and>
   go (sample_config\<lparr>main_steps := ''download,data_split''\<rparr>) sample_world sample_state
     = go (sample_config\<lparr>main_steps := ''data_split,download''\<rparr>) sample_world sample_state"
proof -
  have sp: "str_split ''data_split,download'' CHR '','' = [''data_split'', ''download'']"
    by (simp add: str_split_def)
  have sp': "str_split ''download,data_split'' CHR '','' = [''download'', ''data_split'']"
    by (simp add: str_split_def)
  have valid: "set (str_split ''data_split,download'' CHR '','') \<subseteq> set stage_order"
    by (simp add: sp stage_order_def steps_table_def)
  have ok: "fst (go (sample_config\<lparr>main_steps := ''data_split,download''\<rparr>) sample_world sample_state) = None"
    by (simp add: run_defs sample_defs)
  have same: "set (str_split ''download,data_split'' CHR '','') = set (str_split ''data_split,download'' CHR '','')"
    by (simp add: sp sp' insert_commute)
  have flt: "filter (\<lambda>n. n \<in> set [''data_split'', ''download'']) stage_order = [''download'', ''data_split'']"
    by (simp add: stage_order_def steps_table_def)
  note kept = canonical_order_kept [OF valid, of sample_config sample_world sample_state]
  have run: "stages_run (sample_config\<lparr>main_steps := ''data_split,download''\<rparr>) sample_world sample_state
     = [''download'', ''data_split'']"
    using kept [THEN conjunct2, THEN conjunct1, rule_format, OF ok] by (simp only: sp flt)
  have swap: "go (sample_config\<lparr>main_steps := ''download,data_split''\<rparr>) sample_world sample_state
     = go (sample_config\<lparr>main_steps := ''data_split,download''\<rparr>) sample_world sample_state"
    using kept [THEN conjunct2, THEN conjunct2, THEN conjunct1, rule_format, OF same] .
  from valid sp ok run swap show ?thesis by (intro conjI)
qed

text \<open>
  C10. Whatever the directive, no stage runs twice in one invocation: a stage is selected
  by a membership test of its name in the list of tokens, so a token that occurs twice
  selects its stage once. The directive \<^verbatim>\<open>download,download\<close> runs \<^verbatim>\<open>download\<close> once and
  nothing else.
\<close>

theorem stage_runs_at_most_once:
  "distinct (stages_run config w s) \<and>
   stages_run (config\<lparr>main_steps := ''download,download''\<rparr>) w s = [''download'']"
proof
  show "distinct (stages_run config w s)" by (rule distinct_stages_run)
  show "stages_run (config\<lparr>main_steps := ''download,download''\<rparr>) w s = [''download'']"
    by (simp add: chain_defs)
qed

text \<open>
  C8. The two environment variables of the run-group identity are written before the chain
  starts and not again: every collaborator call of the invocation finds the project name
  and the experiment name of the configuration in them, and so does whoever reads the
  environment when the invocation has ended.
\<close>

theorem run_group_fixed:
  "(\<forall>c \<in> set (new_calls s (snd (go config w s))).
      run_group c = (Some (main_project_name config), Some (main_experiment_name config))) \<and>
   environ (snd (go config w s)) ''WANDB_PROJECT'' = Some (main_project_name config) \<and>
   environ (snd (go config w s)) ''WANDB_RUN_GROUP'' = Some (main_experiment_name config)"
  using go_trace [of s config w] by (simp add: go_environ at_entry_simps)

text \<open>The sample run: five calls, each under the identity of the sample configuration.\<close>

theorem run_group_fixed_witness:
  "map run_group (new_calls sample_state (snd (go sample_config sample_world sample_state))) =
     replicate 5 (Some ''nyc_airbnb'', Some ''development'') \<and>
   environ (snd (go sample_config sample_world sample_state)) ''WANDB_PROJECT'' = Some ''nyc_airbnb'' \<and>
   environ (snd (go sample_config sample_world sample_state)) ''WANDB_RUN_GROUP'' = Some ''development''"
proof -
  have five: "length (new_calls sample_state (snd (go sample_config sample_world sample_state))) = 5"
    by (simp add: run_defs sample_defs)
  have names: "main_project_name sample_config = ''nyc_airbnb''"
    "main_experiment_name sample_config = ''development''"
    by (simp_all add: sample_config_def)
  note fixed = run_group_fixed [of sample_state sample_config sample_world]
  have "map run_group (new_calls sample_state (snd (go sample_config sample_world sample_state))) =
     replicate (length (new_calls sample_state (snd (go sample_config sample_world sample_state))))
       (Some ''nyc_airbnb'', Some ''development'')"
    using fixed [THEN conjunct1] unfolding names
    by (intro map_replicate_const [THEN trans [rotated]] map_cong refl) auto
  with five fixed [THEN conjunct2] names show ?thesis by simp
qed

text \<open>
  C3, as the code has it. The claim reads: a directive with a token that names no stage
  fails with an unknown-stage error and runs nothing. The program never compares a token
  with the names of the stages: the sample configuration with the directive
  \<^verbatim>\<open>download,nonexistent\<close> runs \<^verbatim>\<open>download\<close> and ends without an exception.
\<close>

theorem unknown_token_counterexample:
  "''nonexistent'' \<in> set (str_split ''download,nonexistent'' CHR '','') \<and>
   ''nonexistent'' \<notin> set stage_order \<and>
   fst (go (sample_config\<lparr>main_steps := ''download,nonexistent''\<rparr>) sample_world sample_state) = None \<and>
   stages_run (sample_config\<lparr>main_steps := ''download,nonexistent''\<rparr>) sample_world sample_state
     = [''download'']"
  by (simp add: run_defs sample_defs)

text \<open>
  C3, amended. A token that names no stage is ignored and raises nothing. For every
  directive other than \<^verbatim>\<open>all\<close> that has such a token: only stages named by tokens run, so
  the token itself runs nothing; the invocation is the same as for every directive that
  selects the same stages, where \<^verbatim>\<open>all\<close> selects the five stages of the table and any
  other directive the stages among its tokens; in particular it is the same as for the
  directive that is left when every token that names no stage is removed; and when no
  token names a stage, no stage runs and the invocation ends without an exception.
\<close>

theorem unknown_token_ignored:
  assumes not_all: "main_steps config \<noteq> ''all''"
    and token: "t \<in> set (str_split (main_steps config) CHR '','')"
    and unknown: "t \<notin> set stage_order"
  shows "set (stages_run config w s) \<subseteq> set (str_split (main_steps config) CHR '','') \<inter> set stage_order \<and>
         t \<notin> set (stages_run config w s) \<and>
         (\<forall>d'. set (active_steps (config\<lparr>main_steps := d'\<rparr>)) \<inter> set stage_order =
               set (active_steps config) \<inter> set stage_order \<longrightarrow>
               go (config\<lparr>main_steps := d'\<rparr>) w s = go config w s) \<and>
         go (config\<lparr>main_steps :=
               join_str '','' (filter (\<lambda>t. t \<in> set stage_order)
                                (str_split (main_steps config) CHR '',''))\<rparr>) w s
           = go config w s \<and>
         (set (str_split (main_steps config) CHR '','') \<inter> set stage_order = {} \<longrightarrow>
            fst (go config w s) = None \<and> stages_run config w s = [])"
proof -
  have act: "active_steps config = str_split (main_steps config) CHR '',''"
    using not_all by (rule active_steps_split)
  have one: "set (stages_run config w s) \<subseteq> set (str_split (main_steps config) CHR '','') \<inter> set stage_order"
    using stages_run_subset [of config w s] act by simp
  with unknown have two: "t \<notin> set (stages_run config w s)" by blast
  have three: "\<forall>d'. set (active_steps (config\<lparr>main_steps := d'\<rparr>)) \<inter> set stage_order =
               set (active_steps config) \<inter> set stage_order \<longrightarrow>
               go (config\<lparr>main_steps := d'\<rparr>) w s = go config w s"
  proof (intro allI impI)
    fix d'
    assume same: "set (active_steps (config\<lparr>main_steps := d'\<rparr>)) \<inter> set stage_order =
               set (active_steps config) \<inter> set stage_order"
    show "go (config\<lparr>main_steps := d'\<rparr>) w s = go config w s"
    proof (rule go_same_selection)
      fix n assume "n \<in> set stage_order"
      with same show "(n \<in> set (active_steps (config\<lparr>main_steps := d'\<rparr>))) = (n \<in> set (active_steps config))"
        by blast
    qed
  qed
  let ?known = "filter (\<lambda>t. t \<in> set stage_order) (str_split (main_steps config) CHR '','')"
  have "set (active_steps (config\<lparr>main_steps := join_str '','' ?known\<rparr>)) \<inter> set stage_order = set ?known"
    by (rule active_steps_join) auto
  also have "set ?known = set (active_steps config) \<inter> set stage_order"
    unfolding act by auto
  finally have four: "go (config\<lparr>main_steps := join_str '','' ?known\<rparr>) w s = go config w s"
    using three by blast
  have five: "set (str_split (main_steps config) CHR '','') \<inter> set stage_order = {} \<longrightarrow>
            fst (go config w s) = None \<and> stages_run config w s = []"
  proof
    assume none: "set (str_split (main_steps config) CHR '','') \<inter> set stage_order = {}"
    then have "set (active_steps config) \<inter> set stage_order = {}" by (simp add: act)
    then have "fst (go config w s) = None" by (simp add: go_none_selected)
    moreover have "stages_run config w s = []" using one none by simp
    ultimately show "fst (go config w s) = None \<and> stages_run config w s = []" by simp
  qed
  from one two three four five show ?thesis by (intro conjI)
qed

text \<open>
  The sample configuration with the directive \<^verbatim>\<open>download,nonexistent\<close>, which runs as
  \<^verbatim>\<open>download\<close> does, the directive left when the unknown token is removed; with the
  directive \<^verbatim>\<open>all,nonexistent\<close>, where both tokens name no stage, which runs as the empty
  directive does; and with the directive \<^verbatim>\<open>nonexistent\<close>, which runs nothing.
\<close>

theorem unknown_token_ignored_witness:
  "main_steps (sample_config\<lparr>main_steps := ''download,nonexistent''\<rparr>) \<noteq> ''all'' \<and>
   ''nonexistent'' \<in> set (str_split (main_steps (sample_config\<lparr>main_steps := ''download,nonexistent''\<rparr>)) CHR '','') \<and>
   ''nonexistent'' \<notin> set stage_order \<and>
   ''nonexistent'' \<notin> set (stages_run (sample_config\<lparr>main_steps := ''download,nonexistent''\<rparr>) sample_world sample_state) \<and>
   join_str '','' (filter (\<lambda>t. t \<in> set stage_order) (str_split ''download,nonexistent'' CHR '','')) = ''download'' \<and>
   go (sample_config\<lparr>main_steps := ''download''\<rparr>) sample_world sample_state =
     go (sample_config\<lparr>main_steps := ''download,nonexistent''\<rparr>) sample_world sample_state \<and>
   go (sample_config\<lparr>main_steps := ''data_check,download''\<rparr>) sample_world sample_state =
     go (sample_config\<lparr>main_steps := ''download,nonexistent,data_check''\<rparr>) sample_world sample_state \<and>
   join_str '','' (filter (\<lambda>t. t \<in> set stage_order) (str_split ''all,nonexistent'' CHR '','')) = '''' \<and>
   go (sample_config\<lparr>main_steps := ''''\<rparr>) sample_world sample_state =
     go (sample_config\<lparr>main_steps := ''all,nonexistent''\<rparr>) sample_world sample_state \<and>
   fst (go (sample_config\<lparr>main_steps := ''nonexistent''\<rparr>) sample_world sample_state) = None \<and>
   stages_run (sample_config\<lparr>main_steps := ''nonexistent''\<rparr>) sample_world sample_state = []"
proof -
  let ?c = "sample_config\<lparr>main_steps := ''download,nonexistent''\<rparr>"
  let ?m = "sample_config\<lparr>main_steps := ''download,nonexistent,data_check''\<rparr>"
  let ?a = "sample_config\<lparr>main_steps := ''all,nonexistent''\<rparr>"
  let ?e = "sample_config\<lparr>main_steps := ''nonexistent''\<rparr>"
  have sp: "str_split ''download,nonexistent'' CHR '','' = [''download'', ''nonexistent'']"
    "str_split ''download,nonexistent,data_check'' CHR '','' = [''download'', ''nonexistent'', ''data_check'']"
    "str_split ''data_check,download'' CHR '','' = [''data_check'', ''download'']"
    "str_split ''all,nonexistent'' CHR '','' = [''all'', ''nonexistent'']"
    "str_split ''nonexistent'' CHR '','' = [''nonexistent'']"
    by (simp_all add: str_split_def)
  have c1: "main_steps ?c \<noteq> ''all''" and m1: "main_steps ?m \<noteq> ''all''"
    and a1: "main_steps ?a \<noteq> ''all''" and e1: "main_steps ?e \<noteq> ''all''" by simp_all
  have c2: "''nonexistent'' \<in> set (str_split (main_steps ?c) CHR '','')" by (simp add: sp)
  have m2: "''nonexistent'' \<in> set (str_split (main_steps ?m) CHR '','')" by (simp add: sp)
  have a2: "''nonexistent'' \<in> set (str_split (main_steps ?a) CHR '','')" by (simp add: sp)
  have e2: "''nonexistent'' \<in> set (str_split (main_steps ?e) CHR '','')" by (simp add: sp)
  have u: "''nonexistent'' \<notin> set stage_order" by (simp add: stage_order_def steps_table_def)
  note c = unknown_token_ignored [OF c1 c2 u, of sample_world sample_state]
  note m = unknown_token_ignored [OF m1 m2 u, of sample_world sample_state]
  note a = unknown_token_ignored [OF a1 a2 u, of sample_world sample_state]
  note e = unknown_token_ignored [OF e1 e2 u, of sample_world sample_state]
  have jc: "join_str '','' (filter (\<lambda>t. t \<in> set stage_order) (str_split ''download,nonexistent'' CHR '','')) = ''download''"
    by (simp add: sp stage_order_def steps_table_def)
  have ja: "join_str '','' (filter (\<lambda>t. t \<in> set stage_order) (str_split ''all,nonexistent'' CHR '','')) = ''''"
    by (simp add: sp stage_order_def steps_table_def)
  have same: "set (active_steps (?m\<lparr>main_steps := ''data_check,download''\<rparr>)) \<inter> set stage_order =
       set (active_steps ?m) \<inter> set stage_order"
    by (auto simp: active_steps_def sp stage_order_def steps_table_def)
  have none: "set (str_split (main_steps ?e) CHR '','') \<inter> set stage_order = {}"
    by (simp add: sp stage_order_def steps_table_def)
  have r1: "''nonexistent'' \<notin> set (stages_run ?c sample_world sample_state)"
    using c [THEN conjunct2, THEN conjunct1] .
  have r2: "go (sample_config\<lparr>main_steps := ''download''\<rparr>) sample_world sample_state = go ?c sample_world sample_state"
    using c [THEN conjunct2, THEN conjunct2, THEN conjunct2, THEN conjunct1] by (simp add: jc)
  have r3: "go (sample_config\<lparr>main_steps := ''data_check,download''\<rparr>) sample_world sample_state
              = go ?m sample_world sample_state"
    using m [THEN conjunct2, THEN conjunct2, THEN conjunct1, rule_format, OF same] by simp
  have r4: "go (sample_config\<lparr>main_steps := ''''\<rparr>) sample_world sample_state = go ?a sample_world sample_state"
    using a [THEN conjunct2, THEN conjunct2, THEN conjunct2, THEN conjunct1] by (simp add: ja)
  have r5: "fst (go ?e sample_world sample_state) = None \<and> stages_run ?e sample_world sample_state = []"
    using e [THEN conjunct2, THEN conjunct2, THEN conjunct2, THEN conjunct2, rule_format, OF none] .
  from c1 c2 u r1 jc r2 r3 ja r4 r5 show ?thesis by simp
qed

text \<open>
  C6, as the code has it. The claim reads: the tokens are trimmed, so that
  \<^verbatim>\<open>download, data_check\<close> selects \<^verbatim>\<open>download\<close> and \<^verbatim>\<open>data_check\<close>. The program splits and
  does not trim: the second token is \<^verbatim>\<open>" data_check"\<close>, which is no stage's name, and
  only \<^verbatim>\<open>download\<close> runs.
\<close>

theorem split_trims_counterexample:
  "active_steps (sample_config\<lparr>main_steps := ''download, data_check''\<rparr>) =
     [''download'', '' data_check''] \<and>
   ''data_check'' \<notin> set (active_steps (sample_config\<lparr>main_steps := ''download, data_check''\<rparr>)) \<and>
   fst (go (sample_config\<lparr>main_steps := ''download, data_check''\<rparr>) sample_world sample_state) = None \<and>
   stages_run (sample_config\<lparr>main_steps := ''download, data_check''\<rparr>) sample_world sample_state
     = [''download'']"
  by (simp add: run_defs sample_defs)

text \<open>
  C6, amended. For every directive other than \<^verbatim>\<open>all\<close>, the active steps are the
  directive split at its commas and nothing else: each token keeps its surrounding
  whitespace, so that joining the tokens with commas gives the directive back. The
  directive \<^verbatim>\<open>download, data_check\<close> has the tokens \<^verbatim>\<open>"download"\<close> and \<^verbatim>\<open>" data_check"\<close>
  and runs \<^verbatim>\<open>download\<close> alone.
\<close>

theorem split_keeps_whitespace:
  assumes "main_steps config \<noteq> ''all''"
  shows "active_steps config = str_split (main_steps config) CHR '','' \<and>
         join_str '','' (active_steps config) = main_steps config \<and>
         active_steps (config\<lparr>main_steps := ''download, data_check''\<rparr>) =
           [''download'', '' data_check''] \<and>
         stages_run (config\<lparr>main_steps := ''download, data_check''\<rparr>) w s = [''download'']"
proof (intro conjI)
  show act: "active_steps config = str_split (main_steps config) CHR '',''"
    using assms by (rule active_steps_split)
  show "join_str '','' (active_steps config) = main_steps config"
    unfolding act using join_str_split [of "CHR '',''" "main_steps config"] by simp
  show "active_steps (config\<lparr>main_steps := ''download, data_check''\<rparr>) =
           [''download'', '' data_check'']"
    by (simp add: active_steps_def str_split_def)
  show "stages_run (config\<lparr>main_steps := ''download, data_check''\<rparr>) w s = [''download'']"
    by (simp add: chain_defs)
qed

text \<open>The sample configuration with the directive \<^verbatim>\<open>download, data_check\<close>.\<close>

theorem split_keeps_whitespace_witness:
  "main_steps (sample_config\<lparr>main_steps := ''download, data_check''\<rparr>) \<noteq> ''all'' \<and>
   active_steps (sample_config\<lparr>main_steps := ''download, data_check''\<rparr>) =
     [''download'', '' data_check''] \<and>
   join_str '','' [''download'', '' data_check''] = ''download, data_check'' \<and>
   stages_run (sample_config\<lparr>main_steps := ''download, data_check''\<rparr>) sample_world sample_state
     = [''download'']"
proof -
  let ?c = "sample_config\<lparr>main_steps := ''download, data_check''\<rparr>"
  have ne: "main_steps ?c \<noteq> ''all''" by simp
  note kept = split_keeps_whitespace [OF ne, of sample_world sample_state]
  have act: "active_steps ?c = [''download'', '' data_check'']"
    using kept [THEN conjunct2, THEN conjunct2, THEN conjunct1] by simp
  have joined: "join_str '','' [''download'', '' data_check''] = ''download, data_check''"
    using kept [THEN conjunct2, THEN conjunct1] unfolding act by simp
  have run: "stages_run ?c sample_world sample_state = [''download'']"
    using kept [THEN conjunct2, THEN conjunct2, THEN conjunct2] by simp
  from ne act joined run show ?thesis by (intro conjI)
qed

text \<open>
  C7. With the directive \<^verbatim>\<open>download,basic_cleaning\<close>, \<^verbatim>\<open>etl.sample = "sample.csv"\<close>,
  \<^verbatim>\<open>etl.min_price = 10\<close> and \<^verbatim>\<open>etl.max_price = 1000\<close>, and a \<^verbatim>\<open>download\<close> that succeeds,
  exactly two stages run, \<^verbatim>\<open>download\<close> first: it publishes an artifact named
  \<^verbatim>\<open>sample.csv\<close> of type \<^verbatim>\<open>raw_data\<close>; then \<^verbatim>\<open>basic_cleaning\<close> runs its process with the
  input artifact \<^verbatim>\<open>sample.csv:latest\<close> and the prices as the strings \<^verbatim>\<open>"10"\<close> and
  \<^verbatim>\<open>"1000"\<close>.
\<close>

theorem download_then_basic_cleaning:
  assumes "main_steps config = ''download,basic_cleaning''"
    and "etl_sample config = ''sample.csv''"
    and "etl_min_price config = VInt 10"
    and "etl_max_price config = VInt 1000"
    and "exit_status w ''download'' = 0"
  shows "stages_run config w s = [''download'', ''basic_cleaning''] \<and>
         map act (new_calls s (snd (go config w s))) =
           [LogArtifact ''sample.csv'' ''raw_data'' ''Raw data from local file''
              (path_join (path_join (get_original_cwd w) ''data'') ''sample.csv''),
            SubprocessRun
              [''python'', ''run.py'',
               ''--input_artifact'', ''sample.csv:latest'',
               ''--output_artifact'', etl_output_artifact config,
               ''--output_type'', etl_output_type config,
               ''--output_description'', etl_output_description config,
               ''--min_price'', ''10'',
               ''--max_price'', ''1000'']
              (path_join (get_original_cwd w) ''src/basic_cleaning'')]"
  using assms by (simp add: chain_defs basic_cleaning_args_def str_int_defs)

text \<open>The sample configuration with that directive; its other keys already have these values.\<close>

theorem download_then_basic_cleaning_witness:
  "main_steps (sample_config\<lparr>main_steps := ''download,basic_cleaning''\<rparr>) = ''download,basic_cleaning'' \<and>
   etl_sample (sample_config\<lparr>main_steps := ''download,basic_cleaning''\<rparr>) = ''sample.csv'' \<and>
   etl_min_price (sample_config\<lparr>main_steps := ''download,basic_cleaning''\<rparr>) = VInt 10 \<and>
   etl_max_price (sample_config\<lparr>main_steps := ''download,basic_cleaning''\<rparr>) = VInt 1000 \<and>
   exit_status sample_world ''download'' = 0 \<and>
   stages_run (sample_config\<lparr>main_steps := ''download,basic_cleaning''\<rparr>) sample_world sample_state
     = [''download'', ''basic_cleaning''] \<and>
   map act (new_calls sample_state
       (snd (go (sample_config\<lparr>main_steps := ''download,basic_cleaning''\<rparr>) sample_world sample_state))) =
     [LogArtifact ''sample.csv'' ''raw_data'' ''Raw data from local file''
        ''/home/op/project/data/sample.csv'',
      SubprocessRun
        [''python'', ''run.py'',
         ''--input_artifact'', ''sample.csv:latest'',
         ''--output_artifact'', ''clean_sample.csv'',
         ''--output_type'', ''clean_sample'',
         ''--output_description'', ''Data with outliers and null values removed'',
         ''--min_price'', ''10'',
         ''--max_price'', ''1000'']
        ''/home/op/project/src/basic_cleaning'']"
proof -
  let ?c = "sample_config\<lparr>main_steps := ''download,basic_cleaning''\<rparr>"
  have h: "main_steps ?c = ''download,basic_cleaning''" "etl_sample ?c = ''sample.csv''"
    "etl_min_price ?c = VInt 10" "etl_max_price ?c = VInt 1000"
    "exit_status sample_world ''download'' = 0"
    by (simp_all add: sample_defs)
  have paths: "path_join (path_join (get_original_cwd sample_world) ''data'') ''sample.csv''
                 = ''/home/op/project/data/sample.csv''"
    "path_join (get_original_cwd sample_world) ''src/basic_cleaning''
                 = ''/home/op/project/src/basic_cleaning''"
    by (simp_all add: path_join_def sample_world_def)
  have rest: "etl_output_artifact ?c = ''clean_sample.csv''" "etl_output_type ?c = ''clean_sample''"
    "etl_output_description ?c = ''Data with outliers and null values removed''"
    by (simp_all add: sample_config_def)
  from download_then_basic_cleaning [OF h, of sample_state] h paths rest
  show ?thesis by simp
qed

text \<open>
  C9. Whatever the configuration, \<^verbatim>\<open>basic_cleaning\<close> passes the literal
  \<^verbatim>\<open>sample.csv:latest\<close> as its \<^verbatim>\<open>--input_artifact\<close>, and \<^verbatim>\<open>etl.sample\<close> plays no part in
  its arguments, while \<^verbatim>\<open>download\<close> publishes its artifact under the name \<^verbatim>\<open>etl.sample\<close>.
  So when \<^verbatim>\<open>etl.sample\<close> is not \<^verbatim>\<open>sample.csv\<close>, the reference that \<^verbatim>\<open>basic_cleaning\<close>
  resolves is not the \<^verbatim>\<open>latest\<close> reference of the artifact that \<^verbatim>\<open>download\<close> published.
\<close>

theorem basic_cleaning_input_is_literal:
  "arg_value ''--input_artifact'' (basic_cleaning_args config) = Some ''sample.csv:latest'' \<and>
   basic_cleaning_args (config\<lparr>etl_sample := x\<rparr>) = basic_cleaning_args config \<and>
   (\<forall>c \<in> set (new_calls s (snd (go config w s))).
      (stage c = ''basic_cleaning'' \<longrightarrow>
         act c = SubprocessRun (basic_cleaning_args config)
                   (path_join (get_original_cwd w) ''src/basic_cleaning'')) \<and>
      (stage c = ''download'' \<longrightarrow>
         act c = LogArtifact (etl_sample config) ''raw_data'' ''Raw data from local file''
                   (path_join (path_join (get_original_cwd w) ''data'') (etl_sample config)))) \<and>
   (etl_sample config \<noteq> ''sample.csv'' \<longrightarrow>
      etl_sample config @ '':latest'' \<noteq> ''sample.csv:latest'')"
proof (intro conjI)
  show "arg_value ''--input_artifact'' (basic_cleaning_args config) = Some ''sample.csv:latest''"
    by (simp add: basic_cleaning_args_def)
  show "basic_cleaning_args (config\<lparr>etl_sample := x\<rparr>) = basic_cleaning_args config"
    by (simp add: basic_cleaning_args_def)
  show "\<forall>c \<in> set (new_calls s (snd (go config w s))).
      (stage c = ''basic_cleaning'' \<longrightarrow>
         act c = SubprocessRun (basic_cleaning_args config)
                   (path_join (get_original_cwd w) ''src/basic_cleaning'')) \<and>
      (stage c = ''download'' \<longrightarrow>
         act c = LogArtifact (etl_sample config) ''raw_data'' ''Raw data from local file''
                   (path_join (path_join (get_original_cwd w) ''data'') (etl_sample config)))"
    by (rule go_actions)
  show "etl_sample config \<noteq> ''sample.csv'' \<longrightarrow>
      etl_sample config @ '':latest'' \<noteq> ''sample.csv:latest''"
  proof
    assume ne: "etl_sample config \<noteq> ''sample.csv''"
    have "''sample.csv:latest'' = ''sample.csv'' @ '':latest''" by simp
    with ne show "etl_sample config @ '':latest'' \<noteq> ''sample.csv:latest''"
      by (simp only: append_same_eq) simp
  qed
qed

text \<open>
  The sample configuration with \<^verbatim>\<open>etl.sample = "sample1.csv"\<close> and the directive
  \<^verbatim>\<open>download,basic_cleaning\<close>: the artifact is published as \<^verbatim>\<open>sample1.csv\<close>, the reference
  passed on is \<^verbatim>\<open>sample.csv:latest\<close>.
\<close>

theorem basic_cleaning_input_is_literal_witness:
  "etl_sample (sample_config\<lparr>main_steps := ''download,basic_cleaning'', etl_sample := ''sample1.csv''\<rparr>)
     \<noteq> ''sample.csv'' \<and>
   stages_run (sample_config\<lparr>main_steps := ''download,basic_cleaning'', etl_sample := ''sample1.csv''\<rparr>)
     sample_world sample_state = [''download'', ''basic_cleaning''] \<and>
   map act (new_calls sample_state
     (snd (go (sample_config\<lparr>main_steps := ''download,basic_cleaning'', etl_sample := ''sample1.csv''\<rparr>)
            sample_world sample_state))) =
     [LogArtifact ''sample1.csv'' ''raw_data'' ''Raw data from local file''
        ''/home/op/project/data/sample1.csv'',
      SubprocessRun
        [''python'', ''run.py'',
         ''--input_artifact'', ''sample.csv:latest'',
         ''--output_artifact'', ''clean_sample.csv'',
         ''--output_type'', ''clean_sample'',
         ''--output_description'', ''Data with outliers and null values removed'',
         ''--min_price'', ''10'',
         ''--max_price'', ''1000'']
        ''/home/op/project/src/basic_cleaning''] \<and>
   ''sample1.csv'' @ '':latest'' \<noteq> ''sample.csv:latest''"
proof -
  let ?c = "sample_config\<lparr>main_steps := ''download,basic_cleaning'', etl_sample := ''sample1.csv''\<rparr>"
  have ne: "etl_sample ?c \<noteq> ''sample.csv''" by simp
  have run: "stages_run ?c sample_world sample_state = [''download'', ''basic_cleaning'']"
    by (simp add: run_defs sample_defs)
  have two: "map stage (new_calls sample_state (snd (go ?c sample_world sample_state)))
               = [''download'', ''basic_cleaning'']"
    using run by (simp add: stages_run_def)
  then obtain a b where ab: "new_calls sample_state (snd (go ?c sample_world sample_state)) = [a, b]"
    "stage a = ''download''" "stage b = ''basic_cleaning''"
    by (auto simp: map_eq_Cons_conv)
  note lit = basic_cleaning_input_is_literal [of ?c "''sample1.csv''" sample_state sample_world]
  have acts: "act a = LogArtifact ''sample1.csv'' ''raw_data'' ''Raw data from local file''
                        ''/home/op/project/data/sample1.csv''"
    "act b = SubprocessRun (basic_cleaning_args ?c) ''/home/op/project/src/basic_cleaning''"
    using lit [THEN conjunct2, THEN conjunct2, THEN conjunct1] ab
    by (simp_all add: path_join_def sample_world_def)
  have args: "basic_cleaning_args ?c =
        [''python'', ''run.py'',
         ''--input_artifact'', ''sample.csv:latest'',
         ''--output_artifact'', ''clean_sample.csv'',
         ''--output_type'', ''clean_sample'',
         ''--output_description'', ''Data with outliers and null values removed'',
         ''--min_price'', ''10'',
         ''--max_price'', ''1000'']"
    by (simp add: basic_cleaning_args_def sample_config_def str_int_defs)
  have differ: "''sample1.csv'' @ '':latest'' \<noteq> ''sample.csv:latest''"
    using lit [THEN conjunct2, THEN conjunct2, THEN conjunct2, rule_format, OF ne] by simp
  from ne run ab acts args differ show ?thesis by simp
qed

text \<open>
  C4, on the code. The claim reads: with the directive \<^verbatim>\<open>train_random_forest\<close> and
  \<^verbatim>\<open>modeling.random_forest = {"n_estimators": 100}\<close>, the file with that object is written
  inside the temporary directory, its absolute path is the \<^verbatim>\<open>--rf_config\<close> argument, and
  the file is gone when the invocation ends. The program opens the temporary directory but
  never enters it, and names the file relative to the current directory of the process. In
  the sample run the file is written to the directory the process runs in, that path is
  what the stage receives, and after the invocation the temporary directory is gone and
  the file is still there.
\<close>

theorem rf_config_outlives_workspace:
  \<open>mkdtemp sample_world = ''/tmp/tmpk3x9w2'' \<and>
   cwd sample_state = ''/home/op/project/outputs/run1'' \<and>
   modeling_random_forest (sample_config\<lparr>main_steps := ''train_random_forest''\<rparr>) =
     [(''n_estimators'', VInt 100)] \<and>
   fst (go (sample_config\<lparr>main_steps := ''train_random_forest''\<rparr>) sample_world sample_state) = None \<and>
   map act (new_calls sample_state
     (snd (go (sample_config\<lparr>main_steps := ''train_random_forest''\<rparr>) sample_world sample_state))) =
     [SubprocessRun
        [''python'', ''run.py'',
         ''--trainval_artifact'', ''trainval_data:latest'',
         ''--val_size'', ''0.2'',
         ''--random_seed'', ''42'',
         ''--stratify_by'', ''neighbourhood_group'',
         ''--rf_config'', ''/home/op/project/outputs/run1/rf_config.json'',
         ''--max_tfidf_features'', ''5'',
         ''--output_artifact'', ''random_forest_export'']
        ''/home/op/project/src/train_random_forest''] \<and>
   fs (snd (go (sample_config\<lparr>main_steps := ''train_random_forest''\<rparr>) sample_world sample_state))
     ''/home/op/project/outputs/run1/rf_config.json'' = Some (File ''{"n_estimators": 100}'') \<and>
   \<not> under ''/tmp/tmpk3x9w2'' ''/home/op/project/outputs/run1/rf_config.json'' \<and>
   fs (snd (go (sample_config\<lparr>main_steps := ''train_random_forest''\<rparr>) sample_world sample_state))
     ''/tmp/tmpk3x9w2'' = None\<close>
  by (simp add: run_defs sample_defs str_int_defs train_random_forest_args_def
        json_dump_def json_string_def json_escape_def)

end
